theory Spec2Isabelle
  imports Main "HOL-Library.Word"
begin

section \<open>Data model (posts/dtos.go, posts/repository.go)\<close>

text \<open>
  Go's \<^verbatim>\<open>int\<close> is a 64-bit two's complement integer on the 64-bit targets the
  service is built for: \<open>+\<close> wraps around silently, and comparisons are signed. It is
  modelled as a 64-bit word, read through \<open>sint\<close> wherever the source compares.
\<close>

type_synonym go_int = "64 word"

definition MaxInt :: go_int where
  "MaxInt = 0x7FFFFFFFFFFFFFFF"

definition MinInt :: go_int where
  "MinInt = 0x8000000000000000"

text \<open>\<^verbatim>\<open>type PostRead struct { ID int; Title, Content, Author string }\<close>\<close>

record PostRead =
  ID :: go_int
  Title :: string
  Content :: string
  Author :: string

text \<open>
  \<^verbatim>\<open>type PostCreateUpdate struct { Title, Content, Author string }\<close>. The two
  structs share three field names; every use below is qualified by the record's name.
\<close>

record PostCreateUpdate =
  Title :: string
  Content :: string
  Author :: string

text \<open>
  The errors of the package. \<open>ErrPostNotFound\<close> and \<open>InvalidPostIDError\<close> are the two
  package-level sentinel values. \<open>ErrorsNew msg\<close> is an error value made on the spot by
  a call \<^verbatim>\<open>errors.New(msg)\<close> inside a function body: a fresh allocation, hence a
  value different from every sentinel, whatever its message. \<open>ValidationErrors fs\<close> is
  the value \<^verbatim>\<open>validator.ValidationErrors\<close> returned by the validation library, one
  entry for each field that failed, in the order of the struct's fields.
\<close>

datatype error =
    ErrPostNotFound
  | InvalidPostIDError
  | ErrorsNew string
  | ValidationErrors "string list"

text \<open>The text \<^verbatim>\<open>err.Error()\<close> of the errors built by \<^verbatim>\<open>errors.New\<close>.\<close>

fun Error :: "error \<Rightarrow> string option" where
  "Error ErrPostNotFound = Some ''post not found''"
| "Error InvalidPostIDError = Some ''invalid post ID''"
| "Error (ErrorsNew msg) = Some msg"
| "Error (ValidationErrors fs) = None"

text \<open>
  \<^verbatim>\<open>errors.Is(err, target)\<close> for a sentinel target: none of the errors above wraps
  another one, so it is the comparison \<^verbatim>\<open>err == target\<close> of the two values.
\<close>

definition errors_Is :: "error \<Rightarrow> error \<Rightarrow> bool" where
  "errors_Is err target = (err = target)"

text \<open>
  \<^verbatim>\<open>errors.As(err, &validationErrors)\<close> with a target of type
  \<^verbatim>\<open>validator.ValidationErrors\<close>.
\<close>

fun errors_As_ValidationErrors :: "error \<Rightarrow> bool" where
  "errors_As_ValidationErrors (ValidationErrors fs) = True"
| "errors_As_ValidationErrors e = False"

text \<open>
  \<^verbatim>\<open>type MapRepository struct { posts map[int]PostRead; nextID int; mutex sync.RWMutex }\<close>.
  Every method holds the lock from its first statement to its return, so each call is one
  atomic step on the pair of map and counter; the lock itself is not part of the state.
\<close>

record MapRepository =
  posts :: "go_int \<rightharpoonup> PostRead"
  nextID :: go_int

section \<open>The record store (posts/repository.go)\<close>

text \<open>
  The loop of \<^verbatim>\<open>NewMapRepository\<close> over the decoded \<^verbatim>\<open>jsonData.Posts\<close>:
  \<^verbatim>\<open>for _, post := range posts { repo.posts[post.ID] = post; if post.ID > maxID { maxID = post.ID } }\<close>.
  The loop state is the map and \<open>maxID\<close>.
\<close>

fun load_posts :: "PostRead list \<Rightarrow> (go_int \<rightharpoonup> PostRead) \<Rightarrow> go_int \<Rightarrow> (go_int \<rightharpoonup> PostRead) \<times> go_int" where
  "load_posts [] m maxID = (m, maxID)"
| "load_posts (post # rest) m maxID =
     load_posts rest (m(ID post \<mapsto> post)) (if sint maxID < sint (ID post) then ID post else maxID)"

text \<open>
  \<^verbatim>\<open>NewMapRepository\<close>, from the point where the file has been read and decoded (a
  failure of either panics before any store exists): the argument is \<^verbatim>\<open>jsonData.Posts\<close>.
\<close>

definition NewMapRepository :: "PostRead list \<Rightarrow> MapRepository" where
  "NewMapRepository file_posts =
     (case load_posts file_posts Map.empty 0 of
        (m, maxID) \<Rightarrow> \<lparr>posts = m, nextID = maxID + 1\<rparr>)"

text \<open>
  The methods return Go's pair \<^verbatim>\<open>(PostRead, error)\<close> as a sum: \<open>Inl err\<close> for
  \<^verbatim>\<open>(PostRead{}, err)\<close> and \<open>Inr post\<close> for \<^verbatim>\<open>(post, nil)\<close>; \<^verbatim>\<open>Delete\<close>
  returns \<open>None\<close> for \<^verbatim>\<open>nil\<close>. Each method also returns the store after the call.
\<close>

definition GetByID :: "MapRepository \<Rightarrow> go_int \<Rightarrow> (error + PostRead) \<times> MapRepository" where
  "GetByID r id' =
     (case posts r id' of
        Some val \<Rightarrow> (Inr val, r)
      | None \<Rightarrow> (Inl ErrPostNotFound, r))"

definition Create :: "MapRepository \<Rightarrow> PostCreateUpdate \<Rightarrow> (error + PostRead) \<times> MapRepository" where
  "Create r data =
     (let createdPost = \<lparr>ID = nextID r,
                         PostRead.Title = PostCreateUpdate.Title data,
                         PostRead.Content = PostCreateUpdate.Content data,
                         PostRead.Author = PostCreateUpdate.Author data\<rparr>
      in (Inr createdPost, r\<lparr>posts := (posts r)(nextID r \<mapsto> createdPost), nextID := nextID r + 1\<rparr>))"

definition Update :: "MapRepository \<Rightarrow> go_int \<Rightarrow> PostCreateUpdate \<Rightarrow> (error + PostRead) \<times> MapRepository" where
  "Update r id' data =
     (case posts r id' of
        None \<Rightarrow> (Inl ErrPostNotFound, r)
      | Some old \<Rightarrow>
          (let updatedPost = \<lparr>ID = id',
                              PostRead.Title = PostCreateUpdate.Title data,
                              PostRead.Content = PostCreateUpdate.Content data,
                              PostRead.Author = PostCreateUpdate.Author data\<rparr>
           in (Inr updatedPost, r\<lparr>posts := (posts r)(id' \<mapsto> updatedPost)\<rparr>)))"

definition Delete :: "MapRepository \<Rightarrow> go_int \<Rightarrow> error option \<times> MapRepository" where
  "Delete r id' = (None, r\<lparr>posts := (posts r)(id' := None)\<rparr>)"

section \<open>Validation (posts/dtos.go)\<close>

text \<open>
  Modelled from the spec: \<^verbatim>\<open>Validate\<close> calls \<^verbatim>\<open>validate.Struct\<close> of the
  go-playground validator, a library outside the repository. The three fields carry the
  tag \<^verbatim>\<open>validate:"required"\<close>, which for a string fails exactly on the empty string;
  the result is \<^verbatim>\<open>nil\<close> when no field fails and the list of failed fields otherwise.
\<close>

definition Validate :: "PostCreateUpdate \<Rightarrow> error option" where
  "Validate d =
     (let failed = (if PostCreateUpdate.Title d = [] then [''Title''] else [])
                 @ (if PostCreateUpdate.Content d = [] then [''Content''] else [])
                 @ (if PostCreateUpdate.Author d = [] then [''Author''] else [])
      in if failed = [] then None else Some (ValidationErrors failed))"

section \<open>The service layer (PostService)\<close>

text \<open>
  \<^verbatim>\<open>PostService\<close> holds the repository; in \<^verbatim>\<open>main\<close> it is the
  \<^verbatim>\<open>MapRepository\<close>, whose state the service methods thread.
\<close>

definition GetPostByID :: "MapRepository \<Rightarrow> go_int \<Rightarrow> (error + PostRead) \<times> MapRepository" where
  "GetPostByID r id' =
     (if sint id' \<le> 0 then (Inl (ErrorsNew ''invalid post ID''), r)
      else GetByID r id')"

definition CreatePost :: "MapRepository \<Rightarrow> PostCreateUpdate \<Rightarrow> (error + PostRead) \<times> MapRepository" where
  "CreatePost r data =
     (case Validate data of
        Some err \<Rightarrow> (Inl err, r)
      | None \<Rightarrow> Create r data)"

definition UpdatePost :: "MapRepository \<Rightarrow> go_int \<Rightarrow> PostCreateUpdate \<Rightarrow> (error + PostRead) \<times> MapRepository" where
  "UpdatePost r id' data =
     (if sint id' \<le> 0 then (Inl InvalidPostIDError, r)
      else case Validate data of
        Some err \<Rightarrow> (Inl err, r)
      | None \<Rightarrow>
          (case GetByID r id' of
             (Inl err, r1) \<Rightarrow> (Inl err, r1)
           | (Inr found, r1) \<Rightarrow> Update r1 id' data))"

definition DeletePost :: "MapRepository \<Rightarrow> go_int \<Rightarrow> error option \<times> MapRepository" where
  "DeletePost r id' =
     (if sint id' \<le> 0 then (Some (ErrorsNew ''invalid post ID''), r)
      else Delete r id')"

section \<open>How the handler classifies a service error (posts/handlers.go)\<close>

text \<open>
  The status code \<^verbatim>\<open>Handler.GetPostByID\<close> answers with when the service returned
  \<open>err\<close>: 404 for \<open>ErrPostNotFound\<close>, 400 for \<open>InvalidPostIDError\<close>, 500 for
  anything else.
\<close>

definition GetPostByID_status :: "error \<Rightarrow> nat" where
  "GetPostByID_status err =
     (if errors_Is err ErrPostNotFound then 404
      else if errors_Is err InvalidPostIDError then 400
      else 500)"

section \<open>Traces of store operations\<close>

text \<open>
  A call of one of the three mutating methods, and the run of a sequence of calls on a
  store, each on the state the previous one left.
\<close>

datatype store_op =
    OpCreate PostCreateUpdate
  | OpUpdate go_int PostCreateUpdate
  | OpDelete go_int

fun apply_op :: "MapRepository \<Rightarrow> store_op \<Rightarrow> MapRepository" where
  "apply_op r (OpCreate data) = snd (Create r data)"
| "apply_op r (OpUpdate id' data) = snd (Update r id' data)"
| "apply_op r (OpDelete id') = snd (Delete r id')"

fun run :: "MapRepository \<Rightarrow> store_op list \<Rightarrow> MapRepository" where
  "run r [] = r"
| "run r (op # ops) = run (apply_op r op) ops"

text \<open>The identifiers of the records returned by the \<^verbatim>\<open>Create\<close> calls of a run, in call order.\<close>

fun created_ids :: "MapRepository \<Rightarrow> store_op list \<Rightarrow> go_int list" where
  "created_ids r [] = []"
| "created_ids r (OpCreate data # ops) =
     (case fst (Create r data) of
        Inr post \<Rightarrow> ID post # created_ids (apply_op r (OpCreate data)) ops
      | Inl err \<Rightarrow> created_ids (apply_op r (OpCreate data)) ops)"
| "created_ids r (op # ops) = created_ids (apply_op r op) ops"

text \<open>The number of \<^verbatim>\<open>Create\<close> calls in a sequence of calls.\<close>

fun creates :: "store_op list \<Rightarrow> nat" where
  "creates [] = 0"
| "creates (OpCreate data # ops) = Suc (creates ops)"
| "creates (op # ops) = creates ops"

text \<open>The counter is above every key of the map (signed comparison, as Go compares).\<close>

definition counter_above_keys :: "MapRepository \<Rightarrow> bool" where
  "counter_above_keys r = (\<forall>k \<in> dom (posts r). sint k < sint (nextID r))"

section \<open>Concrete stores and requests\<close>

text \<open>
  The two records of \<^verbatim>\<open>setupTestRepository\<close> and the request of
  \<^verbatim>\<open>TestMapRepositoryCreate\<close> in the repository's tests, two records whose
  identifiers are the largest \<^verbatim>\<open>int\<close> and its predecessor, and one with a negative
  identifier.
\<close>

definition post1 :: PostRead where
  "post1 = \<lparr>ID = 1, PostRead.Title = ''Test Post 1'', PostRead.Content = ''Test Content 1'', PostRead.Author = ''Test Author 1''\<rparr>"

definition post2 :: PostRead where
  "post2 = \<lparr>ID = 2, PostRead.Title = ''Test Post 2'', PostRead.Content = ''Test Content 2'', PostRead.Author = ''Test Author 2''\<rparr>"

definition newPost :: PostCreateUpdate where
  "newPost = \<lparr>PostCreateUpdate.Title = ''New Post'', PostCreateUpdate.Content = ''New Content'', PostCreateUpdate.Author = ''New Author''\<rparr>"

definition postMax :: PostRead where
  "postMax = \<lparr>ID = 0x7FFFFFFFFFFFFFFF, PostRead.Title = ''t'', PostRead.Content = ''c'', PostRead.Author = ''a''\<rparr>"

definition postMaxPred :: PostRead where
  "postMaxPred = \<lparr>ID = 0x7FFFFFFFFFFFFFFE, PostRead.Title = ''t'', PostRead.Content = ''c'', PostRead.Author = ''a''\<rparr>"

definition postNeg :: PostRead where
  "postNeg = \<lparr>ID = - 3, PostRead.Title = ''t'', PostRead.Content = ''c'', PostRead.Author = ''a''\<rparr>"

text \<open>
  The store \<^verbatim>\<open>setupTestRepository\<close> builds, the request of
  \<^verbatim>\<open>TestMapRepositoryUpdate\<close>, and a request whose content is missing.
\<close>

definition setupTestRepository :: MapRepository where
  "setupTestRepository = \<lparr>posts = [1 \<mapsto> post1, 2 \<mapsto> post2], nextID = 3\<rparr>"

definition updatedData :: PostCreateUpdate where
  "updatedData = \<lparr>PostCreateUpdate.Title = ''Updated Post'', PostCreateUpdate.Content = ''Updated Content'', PostCreateUpdate.Author = ''Updated Author''\<rparr>"

definition noContent :: PostCreateUpdate where
  "noContent = \<lparr>PostCreateUpdate.Title = ''Updated Post'', PostCreateUpdate.Content = [], PostCreateUpdate.Author = ''Updated Author''\<rparr>"

section \<open>Signed reading of the counter\<close>

lemma sint_MaxInt: "sint MaxInt = 9223372036854775807"
  by (simp add: MaxInt_def)

lemma sint_upper: "sint (x :: go_int) \<le> sint MaxInt"
  using sint_lt [of x] by (simp add: sint_MaxInt)

lemma sint_succ: "(x :: go_int) \<noteq> MaxInt \<Longrightarrow> sint (x + 1) = sint x + 1"
proof -
  assume ne: "x \<noteq> MaxInt"
  have "sint x \<noteq> sint MaxInt" using ne signed_word_eqI [of x MaxInt] by blast
  then have up: "sint x + 1 < 2 ^ 63" using sint_upper [of x] by (simp add: sint_MaxInt)
  have lo: "- (2 ^ 63) \<le> sint x + 1" using sint_ge [of x] by simp
  have "sint (x + 1) = signed_take_bit 63 (sint x + 1)"
    by (simp add: sint_word_ariths)
  also have "\<dots> = sint x + 1"
    using lo up by (rule signed_take_bit_int_eq_self)
  finally show ?thesis .
qed

lemma sint_inj: "sint (x :: go_int) = sint y \<Longrightarrow> x = y"
  by (rule signed_word_eqI)

lemma not_MaxInt_iff: "(x :: go_int) \<noteq> MaxInt \<longleftrightarrow> sint x < sint MaxInt"
proof
  assume "x \<noteq> MaxInt"
  then have "sint x \<noteq> sint MaxInt" using sint_inj [of x MaxInt] by blast
  then show "sint x < sint MaxInt" using sint_upper [of x] by linarith
next
  assume "sint x < sint MaxInt"
  then show "x \<noteq> MaxInt" by auto
qed

section \<open>One call on the store\<close>

lemma posts_Create: "posts (snd (Create r d)) =
  (posts r)(nextID r \<mapsto> \<lparr>ID = nextID r, PostRead.Title = PostCreateUpdate.Title d,
           PostRead.Content = PostCreateUpdate.Content d, PostRead.Author = PostCreateUpdate.Author d\<rparr>)"
  by (simp add: Create_def Let_def)

lemma nextID_Create: "nextID (snd (Create r d)) = nextID r + 1"
  by (simp add: Create_def Let_def)

lemma fst_Create: "fst (Create r d) = Inr \<lparr>ID = nextID r, PostRead.Title = PostCreateUpdate.Title d,
           PostRead.Content = PostCreateUpdate.Content d, PostRead.Author = PostCreateUpdate.Author d\<rparr>"
  by (simp add: Create_def Let_def)

lemma nextID_Update: "nextID (snd (Update r i d)) = nextID r"
  by (simp add: Update_def Let_def split: option.splits)

lemma dom_Update: "dom (posts (snd (Update r i d))) = dom (posts r)"
  by (auto simp: Update_def Let_def split: option.splits if_splits)

lemma nextID_Delete: "nextID (snd (Delete r i)) = nextID r"
  by (simp add: Delete_def)

lemma dom_Delete: "dom (posts (snd (Delete r i))) = dom (posts r) - {i}"
  by (auto simp: Delete_def)

section \<open>The counter stays above the keys\<close>

lemma Create_keeps_counter_above:
  assumes "counter_above_keys r" and "nextID r \<noteq> MaxInt"
  shows "counter_above_keys (snd (Create r d))"
proof -
  have up: "sint (nextID r + 1) = sint (nextID r) + 1"
    using assms(2) by (rule sint_succ)
  have "sint k < sint (nextID r + 1)" if "k \<in> dom (posts (snd (Create r d)))" for k
  proof (cases "k = nextID r")
    case True
    then show ?thesis using up by simp
  next
    case False
    with that have "k \<in> dom (posts r)" by (simp add: posts_Create)
    with assms(1) have "sint k < sint (nextID r)" by (simp add: counter_above_keys_def)
    then show ?thesis using up by simp
  qed
  then show ?thesis by (simp add: counter_above_keys_def nextID_Create)
qed

lemma apply_op_counter_above:
  assumes "counter_above_keys r" and "sint (nextID r) + int (creates [op]) \<le> sint MaxInt"
  shows "counter_above_keys (apply_op r op) \<and> sint (nextID (apply_op r op)) = sint (nextID r) + int (creates [op])"
proof (cases op)
  case (OpCreate d)
  with assms have ne: "nextID r \<noteq> MaxInt" by (auto simp: not_MaxInt_iff)
  then show ?thesis
    using OpCreate assms Create_keeps_counter_above [of r d] sint_succ [of "nextID r"]
    by (simp add: nextID_Create)
next
  case (OpUpdate i d)
  then show ?thesis using assms
    by (simp add: counter_above_keys_def nextID_Update dom_Update)
next
  case (OpDelete i)
  then show ?thesis using assms
    by (simp add: counter_above_keys_def nextID_Delete dom_Delete)
qed

lemma creates_Cons: "creates (op # ops) = creates [op] + creates ops"
  by (cases op) simp_all

lemma creates_append: "creates (xs @ ys) = creates xs + creates ys"
proof (induction xs)
  case Nil show ?case by simp
next
  case (Cons op xs)
  then show ?case using creates_Cons [of op "xs @ ys"] creates_Cons [of op xs] by simp
qed

lemma run_append: "run r (xs @ ys) = run (run r xs) ys"
  by (induction xs arbitrary: r) simp_all

lemma run_counter_above:
  assumes "counter_above_keys r" and "sint (nextID r) + int (creates ops) \<le> sint MaxInt"
  shows "counter_above_keys (run r ops) \<and> sint (nextID (run r ops)) = sint (nextID r) + int (creates ops)"
  using assms
proof (induction ops arbitrary: r)
  case Nil
  then show ?case by simp
next
  case (Cons op ops)
  have split: "creates (op # ops) = creates [op] + creates ops" by (rule creates_Cons)
  have one: "sint (nextID r) + int (creates [op]) \<le> sint MaxInt"
    using Cons.prems(2) split by simp
  have step: "counter_above_keys (apply_op r op)"
    and cnt: "sint (nextID (apply_op r op)) = sint (nextID r) + int (creates [op])"
    using apply_op_counter_above [OF Cons.prems(1) one] by simp_all
  have rest: "sint (nextID (apply_op r op)) + int (creates ops) \<le> sint MaxInt"
    using Cons.prems(2) split cnt by simp
  show ?case using Cons.IH [OF step rest] cnt split by simp
qed

section \<open>The bootstrap loop\<close>

lemma load_posts_dom: "dom (fst (load_posts ps m mx)) = dom m \<union> ID ` set ps"
  by (induction ps arbitrary: m mx) auto

lemma load_posts_map:
  "fst (load_posts ps m mx) = m ++ map_of (rev (map (\<lambda>p. (ID p, p)) ps))"
proof (induction ps arbitrary: m mx)
  case Nil
  show ?case by simp
next
  case (Cons p ps)
  have "m(ID p \<mapsto> p) = m ++ map_of [(ID p, p)]" by simp
  then show ?case
    by (simp only: load_posts.simps Cons.IH list.map rev.simps map_of_append map_add_assoc)
qed

lemma Max_insert_max:
  "finite S \<Longrightarrow> Max (insert (max a b) S) = Max (insert a (insert b S))"
  for a b :: int
  by (cases "S = {}") (simp_all add: max.assoc)

lemma load_posts_max:
  "sint (snd (load_posts ps m mx)) = Max (insert (sint mx) (sint ` ID ` set ps))"
proof (induction ps arbitrary: m mx)
  case Nil
  show ?case by simp
next
  case (Cons p ps)
  let ?mx = "if sint mx < sint (ID p) then ID p else mx"
  have mx: "sint ?mx = max (sint mx) (sint (ID p))" by simp
  have "sint (snd (load_posts (p # ps) m mx)) = sint (snd (load_posts ps (m(ID p \<mapsto> p)) ?mx))"
    by (simp only: load_posts.simps)
  also have "\<dots> = Max (insert (sint ?mx) (sint ` ID ` set ps))"
    by (rule Cons.IH)
  also have "\<dots> = Max (insert (max (sint mx) (sint (ID p))) (sint ` ID ` set ps))"
    by (simp only: mx)
  also have "\<dots> = Max (insert (sint mx) (insert (sint (ID p)) (sint ` ID ` set ps)))"
    by (rule Max_insert_max) simp
  finally show ?case by simp
qed

lemma load_posts_max_mem:
  "snd (load_posts ps m mx) = mx \<or> snd (load_posts ps m mx) \<in> ID ` set ps"
proof (induction ps arbitrary: m mx)
  case Nil
  show ?case by simp
next
  case (Cons p ps)
  let ?mx = "if sint mx < sint (ID p) then ID p else mx"
  have "snd (load_posts ps (m(ID p \<mapsto> p)) ?mx) = ?mx
      \<or> snd (load_posts ps (m(ID p \<mapsto> p)) ?mx) \<in> ID ` set ps"
    by (rule Cons.IH)
  then show ?case by (cases "sint mx < sint (ID p)") auto
qed

lemma posts_New: "posts (NewMapRepository ps) = fst (load_posts ps Map.empty 0)"
  by (simp add: NewMapRepository_def split: prod.splits)

lemma nextID_New: "nextID (NewMapRepository ps) = snd (load_posts ps Map.empty 0) + 1"
  by (simp add: NewMapRepository_def split: prod.splits)

lemma New_counter_above:
  assumes "\<forall>p \<in> set ps. ID p \<noteq> MaxInt"
  shows "counter_above_keys (NewMapRepository ps)"
proof -
  let ?mx = "snd (load_posts ps Map.empty 0)"
  have "?mx \<noteq> MaxInt"
    using load_posts_max_mem [of ps Map.empty 0] assms by (auto simp: MaxInt_def)
  then have up: "sint (?mx + 1) = sint ?mx + 1" by (rule sint_succ)
  have "sint k < sint (?mx + 1)" if "k \<in> dom (posts (NewMapRepository ps))" for k
  proof -
    from that have "k \<in> ID ` set ps" by (simp add: posts_New load_posts_dom)
    then have "sint k \<le> Max (insert (sint (0 :: go_int)) (sint ` ID ` set ps))"
      by (intro Max_ge) auto
    then show ?thesis using up by (simp add: load_posts_max)
  qed
  then show ?thesis by (simp add: counter_above_keys_def nextID_New)
qed

lemma posts_New_map: "posts (NewMapRepository ps) = map_of (rev (map (\<lambda>p. (ID p, p)) ps))"
  by (simp add: posts_New load_posts_map)

lemma sint_nextID_New:
  assumes "Max (insert 0 (sint ` ID ` set ps)) < sint MaxInt"
  shows "sint (nextID (NewMapRepository ps)) = Max (insert 0 (sint ` ID ` set ps)) + 1"
proof -
  let ?mx = "snd (load_posts ps Map.empty 0)"
  have m: "sint ?mx = Max (insert 0 (sint ` ID ` set ps))"
    using load_posts_max [of ps Map.empty 0] by simp
  with assms have "?mx \<noteq> MaxInt" by (simp add: not_MaxInt_iff)
  then have "sint (?mx + 1) = sint ?mx + 1" by (rule sint_succ)
  then show ?thesis using m by (simp add: nextID_New)
qed

section \<open>Validation\<close>

lemma Validate_None_iff:
  "Validate d = None \<longleftrightarrow>
     PostCreateUpdate.Title d \<noteq> [] \<and> PostCreateUpdate.Content d \<noteq> [] \<and> PostCreateUpdate.Author d \<noteq> []"
  by (simp add: Validate_def Let_def)

lemma Validate_Some:
  "Validate d = Some e \<Longrightarrow> errors_As_ValidationErrors e"
  by (auto simp: Validate_def Let_def split: if_splits)

section \<open>Identifiers returned by the creates of a run\<close>

lemma created_ids_no_creates: "creates ops = 0 \<Longrightarrow> created_ids r ops = []"
proof (induction ops arbitrary: r)
  case Nil
  show ?case by simp
next
  case (Cons op ops)
  then show ?case by (cases op) simp_all
qed

lemma created_ids_sorted_lower:
  assumes "sint (nextID r) + int (creates ops) \<le> sint MaxInt + 1"
  shows "sorted_wrt (\<lambda>a b. sint a < sint b) (created_ids r ops)
       \<and> (\<forall>y \<in> set (created_ids r ops). sint (nextID r) \<le> sint y)"
  using assms
proof (induction ops arbitrary: r)
  case Nil
  show ?case by simp
next
  case (Cons op ops)
  show ?case
  proof (cases op)
    case (OpCreate d)
    let ?r' = "snd (Create r d)"
    show ?thesis
    proof (cases "nextID r = MaxInt")
      case True
      with Cons.prems OpCreate have "creates ops = 0" by simp
      then have "created_ids ?r' ops = []" by (rule created_ids_no_creates)
      then show ?thesis using OpCreate by (simp add: fst_Create)
    next
      case False
      then have up: "sint (nextID ?r') = sint (nextID r) + 1"
        by (simp add: nextID_Create sint_succ)
      with Cons.prems OpCreate
      have "sint (nextID ?r') + int (creates ops) \<le> sint MaxInt + 1" by simp
      then have "sorted_wrt (\<lambda>a b. sint a < sint b) (created_ids ?r' ops)"
        and "\<forall>y \<in> set (created_ids ?r' ops). sint (nextID ?r') \<le> sint y"
        using Cons.IH [of ?r'] by simp_all
      then show ?thesis using OpCreate up by (auto simp: fst_Create)
    qed
  next
    case (OpUpdate i d)
    with Cons.prems have "sint (nextID (snd (Update r i d))) + int (creates ops) \<le> sint MaxInt + 1"
      by (simp add: nextID_Update)
    then show ?thesis using OpUpdate Cons.IH [of "snd (Update r i d)"]
      by (simp add: nextID_Update)
  next
    case (OpDelete i)
    with Cons.prems have "sint (nextID (snd (Delete r i))) + int (creates ops) \<le> sint MaxInt + 1"
      by (simp add: nextID_Delete)
    then show ?thesis using OpDelete Cons.IH [of "snd (Delete r i)"]
      by (simp add: nextID_Delete)
  qed
qed

lemma created_ids_upt:
  "created_ids r ops = map (\<lambda>k. nextID r + of_nat k) [0..<creates ops]"
proof (induction ops arbitrary: r)
  case Nil
  show ?case by simp
next
  case (Cons op ops)
  show ?case
  proof (cases op)
    case (OpCreate d)
    have "created_ids r (op # ops) = nextID r # created_ids (snd (Create r d)) ops"
      using OpCreate by (simp add: fst_Create)
    also have "\<dots> = nextID r # map (\<lambda>k. nextID r + 1 + of_nat k) [0..<creates ops]"
      by (simp only: Cons.IH [of "snd (Create r d)"] nextID_Create)
    also have "\<dots> = map (\<lambda>k. nextID r + of_nat k) [0..<Suc (creates ops)]"
      by (simp only: map_upt_Suc) (simp add: add.assoc)
    finally show ?thesis using OpCreate by simp
  next
    case (OpUpdate i d)
    then show ?thesis using Cons.IH [of "snd (Update r i d)"] by (simp add: nextID_Update)
  next
    case (OpDelete i)
    then show ?thesis using Cons.IH [of "snd (Delete r i)"] by (simp add: nextID_Delete)
  qed
qed

lemma word64_of_nat_inj:
  assumes "a < 2 ^ 64" and "b < 2 ^ 64" and "(of_nat a :: go_int) = of_nat b"
  shows "a = b"
proof -
  have "take_bit 64 a = take_bit 64 b"
    using assms(3) by (simp add: word_of_nat_eq_iff)
  then show ?thesis using assms(1,2) by (simp add: take_bit_nat_eq_self)
qed

lemma created_ids_distinct:
  assumes "creates ops \<le> 2 ^ 64"
  shows "distinct (created_ids r ops)"
proof -
  have "inj_on (\<lambda>k. nextID r + (of_nat k :: go_int)) {0..<creates ops}"
  proof (rule inj_onI)
    fix a b
    assume a: "a \<in> {0..<creates ops}" and b: "b \<in> {0..<creates ops}"
      and eq: "nextID r + (of_nat a :: go_int) = nextID r + of_nat b"
    have "a < 2 ^ 64" "b < 2 ^ 64" using a b assms by auto
    moreover have "(of_nat a :: go_int) = of_nat b" using eq by simp
    ultimately show "a = b" by (rule word64_of_nat_inj)
  qed
  then show ?thesis by (simp add: created_ids_upt distinct_map)
qed

lemma creates_replicate: "creates (replicate n (OpCreate d)) = n"
  by (induction n) simp_all

lemma created_ids_repeat:
  "\<not> distinct (created_ids r (replicate (Suc (2 ^ 64)) (OpCreate d)))"
proof -
  let ?f = "\<lambda>k. nextID r + (of_nat k :: go_int)"
  let ?n = "Suc (2 ^ 64) :: nat"
  have ids: "created_ids r (replicate ?n (OpCreate d)) = map ?f [0..<?n]"
    by (simp only: created_ids_upt creates_replicate)
  have "of_nat (2 ^ 64) = (0 :: go_int)"
    using of_nat_2p [where 'a = 64] by simp
  then have same: "?f 0 = ?f (2 ^ 64)" by simp
  have "\<not> inj_on ?f {0..<?n}"
  proof
    assume inj: "inj_on ?f {0..<?n}"
    have "(0 :: nat) \<in> {0..<?n}" and "(2 ^ 64 :: nat) \<in> {0..<?n}" by simp_all
    then have "(0 :: nat) = 2 ^ 64" by (rule inj_onD [OF inj same])
    then show False by simp
  qed
  then show ?thesis by (simp only: ids distinct_map set_upt) simp
qed

section \<open>The claims\<close>

text \<open>
  C1 (amended). The claim as written fails where the counter wraps around: a bootstrap
  file holding the identifier \<open>MaxInt\<close> yields a counter of \<open>MinInt\<close>, and a
  \<^verbatim>\<open>Create\<close> on a counter equal to \<open>MaxInt\<close> moves it to \<open>MinInt\<close>. What holds:
  in every store reached from a bootstrapped one by a sequence of \<^verbatim>\<open>Create\<close>,
  \<^verbatim>\<open>Update\<close> and \<^verbatim>\<open>Delete\<close> calls, the counter is strictly greater than every
  key of the map, and the counter of every intermediate store is at most the counter of
  every later one, provided the file holds no identifier equal to \<open>MaxInt\<close> and the
  \<^verbatim>\<open>Create\<close> calls do not carry the counter beyond \<open>MaxInt\<close>. \<^verbatim>\<open>Delete\<close> never
  changes the counter, so it never makes a used identifier allocatable again.
\<close>

theorem counter_above_keys_reachable:
  assumes "\<forall>p \<in> set file_posts. ID p \<noteq> MaxInt"
    and "sint (nextID (NewMapRepository file_posts)) + int (creates (pre @ rest)) \<le> sint MaxInt"
  shows "counter_above_keys (run (NewMapRepository file_posts) pre)
       \<and> sint (nextID (run (NewMapRepository file_posts) pre))
           \<le> sint (nextID (run (NewMapRepository file_posts) (pre @ rest)))
       \<and> nextID (snd (Delete r i)) = nextID r"
proof -
  let ?r0 = "NewMapRepository file_posts"
  have inv0: "counter_above_keys ?r0" using assms(1) by (rule New_counter_above)
  have b_pre: "sint (nextID ?r0) + int (creates pre) \<le> sint MaxInt"
    using assms(2) by (simp add: creates_append)
  have pre: "counter_above_keys (run ?r0 pre)"
    and n_pre: "sint (nextID (run ?r0 pre)) = sint (nextID ?r0) + int (creates pre)"
    using run_counter_above [OF inv0 b_pre] by simp_all
  have b_rest: "sint (nextID (run ?r0 pre)) + int (creates rest) \<le> sint MaxInt"
    using assms(2) n_pre by (simp add: creates_append)
  have "sint (nextID (run (run ?r0 pre) rest)) = sint (nextID (run ?r0 pre)) + int (creates rest)"
    using run_counter_above [OF pre b_rest] by simp
  then have "sint (nextID (run ?r0 pre)) \<le> sint (nextID (run ?r0 (pre @ rest)))"
    by (simp add: run_append)
  then show ?thesis using pre by (simp add: nextID_Delete)
qed

text \<open>The theorem at the store of two records, with a create, a delete and a create.\<close>

theorem counter_above_keys_reachable_witness:
  "ID post1 \<noteq> MaxInt \<and> ID post2 \<noteq> MaxInt
   \<and> sint (nextID (NewMapRepository [post1, post2]))
        + int (creates ([OpCreate newPost, OpDelete 1] @ [OpCreate newPost])) \<le> sint MaxInt
   \<and> counter_above_keys (run (NewMapRepository [post1, post2]) [OpCreate newPost, OpDelete 1])
   \<and> sint (nextID (run (NewMapRepository [post1, post2]) [OpCreate newPost, OpDelete 1]))
        \<le> sint (nextID (run (NewMapRepository [post1, post2]) ([OpCreate newPost, OpDelete 1] @ [OpCreate newPost])))"
proof -
  have h1: "\<forall>p \<in> set [post1, post2]. ID p \<noteq> MaxInt"
    by (simp add: post1_def post2_def MaxInt_def)
  have h2: "sint (nextID (NewMapRepository [post1, post2]))
        + int (creates ([OpCreate newPost, OpDelete 1] @ [OpCreate newPost])) \<le> sint MaxInt"
    by (simp add: NewMapRepository_def post1_def post2_def MaxInt_def)
  have h1': "ID post1 \<noteq> MaxInt \<and> ID post2 \<noteq> MaxInt"
    using h1 by simp
  show ?thesis
    using h1' h2 counter_above_keys_reachable [OF h1 h2] by blast
qed

text \<open>
  C1 as written is false: after bootstrapping from a file whose only record has the
  identifier \<open>MaxInt\<close> the counter is not above that key, and a \<^verbatim>\<open>Create\<close> on the
  store bootstrapped from the identifier \<open>MaxInt - 1\<close> decreases the counter.
\<close>

theorem counter_above_keys_counterexample:
  "\<not> counter_above_keys (run (NewMapRepository [postMax]) [])
   \<and> sint (nextID (run (NewMapRepository [postMaxPred]) [OpCreate newPost]))
        < sint (nextID (NewMapRepository [postMaxPred]))"
proof -
  have "posts (NewMapRepository [postMax]) (ID postMax) = Some postMax"
    by (simp add: NewMapRepository_def)
  moreover have "\<not> sint (ID postMax) < sint (nextID (NewMapRepository [postMax]))"
    by (simp add: NewMapRepository_def postMax_def)
  ultimately have "\<not> counter_above_keys (NewMapRepository [postMax])"
    unfolding counter_above_keys_def by blast
  moreover have "sint (nextID (run (NewMapRepository [postMaxPred]) [OpCreate newPost]))
        < sint (nextID (NewMapRepository [postMaxPred]))"
    by (simp add: NewMapRepository_def postMaxPred_def Create_def Let_def)
  ultimately show ?thesis by simp
qed

text \<open>
  C2 (amended). The claim as written fails where the counter wraps around: a
  \<^verbatim>\<open>Create\<close> on a counter equal to \<open>MaxInt\<close> is followed by one that returns
  \<open>MinInt\<close>, and after \<open>2 ^ 64\<close> creates the identifiers repeat. What holds, for
  every store and every sequence of \<^verbatim>\<open>Create\<close> calls with whatever \<^verbatim>\<open>Delete\<close> and
  \<^verbatim>\<open>Update\<close> calls between them: the identifiers returned by the successive
  \<^verbatim>\<open>Create\<close> calls are pairwise distinct when the sequence holds at most \<open>2 ^ 64\<close>
  creates, whether or not the counter wraps around; and they are strictly increasing in
  call order when the creates return identifiers up to \<open>MaxInt\<close> at most (the counter
  does not wrap around before the last of them). On the empty bootstrapped store, create,
  delete of identifier 1, create returns the identifiers 1 and 2.
\<close>

theorem created_ids_increasing:
  "(creates ops \<le> 2 ^ 64 \<longrightarrow> distinct (created_ids r ops))
   \<and> (sint (nextID r) + int (creates ops) \<le> sint MaxInt + 1 \<longrightarrow>
        sorted_wrt (\<lambda>a b. sint a < sint b) (created_ids r ops))
   \<and> created_ids (NewMapRepository []) [OpCreate d1, OpDelete 1, OpCreate d2] = [1, 2]"
proof (intro conjI impI)
  show "distinct (created_ids r ops)" if "creates ops \<le> 2 ^ 64"
    using that by (rule created_ids_distinct)
  show "sorted_wrt (\<lambda>a b. sint a < sint b) (created_ids r ops)"
    if "sint (nextID r) + int (creates ops) \<le> sint MaxInt + 1"
    using created_ids_sorted_lower [OF that] by simp
  show "created_ids (NewMapRepository []) [OpCreate d1, OpDelete 1, OpCreate d2] = [1, 2]"
    by (simp add: fst_Create nextID_New nextID_Create nextID_Delete)
qed

text \<open>
  The theorem at the store of two records, where the two creates return 3 and 4, and at
  the store bootstrapped from the identifier \<open>MaxInt - 1\<close>, where the two creates wrap
  around and still return distinct identifiers.
\<close>

theorem created_ids_increasing_witness:
  "creates [OpCreate newPost, OpDelete 3, OpCreate newPost] \<le> 2 ^ 64
   \<and> distinct (created_ids (NewMapRepository [post1, post2]) [OpCreate newPost, OpDelete 3, OpCreate newPost])
   \<and> sint (nextID (NewMapRepository [post1, post2]))
      + int (creates [OpCreate newPost, OpDelete 3, OpCreate newPost]) \<le> sint MaxInt + 1
   \<and> sorted_wrt (\<lambda>a b. sint a < sint b)
        (created_ids (NewMapRepository [post1, post2]) [OpCreate newPost, OpDelete 3, OpCreate newPost])
   \<and> created_ids (NewMapRepository [post1, post2]) [OpCreate newPost, OpDelete 3, OpCreate newPost] = [3, 4]
   \<and> creates [OpCreate newPost, OpCreate newPost] \<le> 2 ^ 64
   \<and> distinct (created_ids (NewMapRepository [postMaxPred]) [OpCreate newPost, OpCreate newPost])
   \<and> created_ids (NewMapRepository [postMaxPred]) [OpCreate newPost, OpCreate newPost] = [MaxInt, MinInt]"
proof -
  let ?ops = "[OpCreate newPost, OpDelete 3, OpCreate newPost]"
  let ?two = "[OpCreate newPost, OpCreate newPost]"
  have c: "creates ?ops \<le> 2 ^ 64" by simp
  have c2: "creates ?two \<le> 2 ^ 64" by simp
  have h: "sint (nextID (NewMapRepository [post1, post2])) + int (creates ?ops) \<le> sint MaxInt + 1"
    by (simp add: NewMapRepository_def post1_def post2_def MaxInt_def)
  have v: "created_ids (NewMapRepository [post1, post2]) ?ops = [3, 4]"
    by (simp add: NewMapRepository_def post1_def post2_def Create_def Delete_def Let_def)
  have w: "created_ids (NewMapRepository [postMaxPred]) ?two = [MaxInt, MinInt]"
    by (simp add: NewMapRepository_def postMaxPred_def Create_def Let_def MaxInt_def MinInt_def)
  have d: "distinct (created_ids (NewMapRepository [post1, post2]) ?ops)"
    and s: "sorted_wrt (\<lambda>a b. sint a < sint b) (created_ids (NewMapRepository [post1, post2]) ?ops)"
    using c h created_ids_increasing [of ?ops "NewMapRepository [post1, post2]"] by blast+
  have d2: "distinct (created_ids (NewMapRepository [postMaxPred]) ?two)"
    using c2 created_ids_increasing [of ?two "NewMapRepository [postMaxPred]"] by blast
  show ?thesis using c c2 h v w d s d2 by blast
qed

text \<open>
  C2 as written is false: on the store bootstrapped from the identifier \<open>MaxInt - 1\<close>
  two creates return \<open>MaxInt\<close> and then \<open>MinInt\<close>, which is smaller; and of
  \<open>2 ^ 64 + 1\<close> creates on any store, here the empty bootstrapped one, the last returns
  the identifier of the first.
\<close>

theorem created_ids_increasing_counterexample:
  "\<not> sorted_wrt (\<lambda>a b. sint a < sint b)
        (created_ids (NewMapRepository [postMaxPred]) [OpCreate newPost, OpCreate newPost])
   \<and> \<not> distinct (created_ids (NewMapRepository []) (replicate (Suc (2 ^ 64)) (OpCreate newPost)))"
proof -
  have "\<not> sorted_wrt (\<lambda>a b. sint a < sint b)
        (created_ids (NewMapRepository [postMaxPred]) [OpCreate newPost, OpCreate newPost])"
    by (simp add: NewMapRepository_def postMaxPred_def Create_def Let_def)
  moreover have "\<not> distinct (created_ids (NewMapRepository []) (replicate (Suc (2 ^ 64)) (OpCreate newPost)))"
    by (rule created_ids_repeat)
  ultimately show ?thesis by (rule conjI)
qed

text \<open>
  C3. For every store and every request, \<^verbatim>\<open>Create\<close> returns no error; the record it
  returns has the store's next identifier and the title, content and author of the
  request; and \<^verbatim>\<open>GetByID\<close> on that identifier, in the store \<^verbatim>\<open>Create\<close>
  left, returns the same record.
\<close>

theorem Create_then_GetByID:
  "fst (Create r d) = Inr \<lparr>ID = nextID r, PostRead.Title = PostCreateUpdate.Title d,
        PostRead.Content = PostCreateUpdate.Content d, PostRead.Author = PostCreateUpdate.Author d\<rparr>
   \<and> fst (GetByID (snd (Create r d)) (nextID r)) = fst (Create r d)"
  by (simp add: Create_def GetByID_def Let_def)

text \<open>The theorem at the store of two records: the created record has identifier 3.\<close>

theorem Create_then_GetByID_witness:
  "fst (Create setupTestRepository newPost) = Inr \<lparr>ID = 3, PostRead.Title = ''New Post'',
        PostRead.Content = ''New Content'', PostRead.Author = ''New Author''\<rparr>
   \<and> fst (GetByID (snd (Create setupTestRepository newPost)) 3) = Inr \<lparr>ID = 3, PostRead.Title = ''New Post'',
        PostRead.Content = ''New Content'', PostRead.Author = ''New Author''\<rparr>"
  using Create_then_GetByID [of setupTestRepository newPost]
  by (simp add: setupTestRepository_def newPost_def)

text \<open>
  C4. When the identifier is present, \<^verbatim>\<open>Update\<close> returns no error; the record it
  returns, which \<^verbatim>\<open>GetByID\<close> then returns too, is built from the identifier and the
  request alone, so nothing of the record stored before is left; every other key of the
  map keeps its entry, and the counter is unchanged.
\<close>

theorem Update_replaces_wholesale:
  assumes "posts r i = Some old"
  shows "fst (Update r i d) = Inr \<lparr>ID = i, PostRead.Title = PostCreateUpdate.Title d,
            PostRead.Content = PostCreateUpdate.Content d, PostRead.Author = PostCreateUpdate.Author d\<rparr>
       \<and> fst (GetByID (snd (Update r i d)) i) = fst (Update r i d)
       \<and> (\<forall>k. k \<noteq> i \<longrightarrow> posts (snd (Update r i d)) k = posts r k)
       \<and> nextID (snd (Update r i d)) = nextID r"
  using assms by (simp add: Update_def GetByID_def Let_def)

text \<open>The theorem at the store of two records, updating record 1: record 2 is untouched.\<close>

theorem Update_replaces_wholesale_witness:
  "posts setupTestRepository 1 = Some post1
   \<and> fst (Update setupTestRepository 1 updatedData) = Inr \<lparr>ID = 1, PostRead.Title = ''Updated Post'',
            PostRead.Content = ''Updated Content'', PostRead.Author = ''Updated Author''\<rparr>
   \<and> fst (GetByID (snd (Update setupTestRepository 1 updatedData)) 1) = Inr \<lparr>ID = 1, PostRead.Title = ''Updated Post'',
            PostRead.Content = ''Updated Content'', PostRead.Author = ''Updated Author''\<rparr>
   \<and> posts (snd (Update setupTestRepository 1 updatedData)) 2 = Some post2
   \<and> nextID (snd (Update setupTestRepository 1 updatedData)) = 3"
proof -
  have h: "posts setupTestRepository 1 = Some post1" by (simp add: setupTestRepository_def)
  have "(2 :: go_int) \<noteq> 1" by simp
  then show ?thesis
    using h Update_replaces_wholesale [OF h, of updatedData]
    by (simp add: setupTestRepository_def updatedData_def)
qed

text \<open>
  C5. \<^verbatim>\<open>Delete\<close> returns \<^verbatim>\<open>nil\<close> on every store and identifier, hence on a
  repeated call as well; deleting an absent identifier leaves the store, and so the number
  of its records, unchanged; and deleting twice leaves the same store as deleting once.
\<close>

theorem Delete_idempotent:
  "fst (Delete r i) = None
   \<and> fst (Delete (snd (Delete r i)) i) = None
   \<and> (posts r i = None \<longrightarrow> snd (Delete r i) = r)
   \<and> (posts r i = None \<longrightarrow> card (dom (posts (snd (Delete r i)))) = card (dom (posts r)))
   \<and> snd (Delete (snd (Delete r i)) i) = snd (Delete r i)"
proof -
  have "posts r i = None \<Longrightarrow> (posts r)(i := None) = posts r"
    by (rule fun_upd_idem) simp
  then show ?thesis by (simp add: Delete_def)
qed

text \<open>The theorem at the store of two records, for the absent identifier 999 and for 1.\<close>

theorem Delete_idempotent_witness:
  "posts setupTestRepository 999 = None
   \<and> fst (Delete setupTestRepository 999) = None
   \<and> fst (Delete (snd (Delete setupTestRepository 999)) 999) = None
   \<and> snd (Delete setupTestRepository 999) = setupTestRepository
   \<and> card (dom (posts (snd (Delete setupTestRepository 999)))) = card (dom (posts setupTestRepository))
   \<and> snd (Delete (snd (Delete setupTestRepository 1)) 1) = snd (Delete setupTestRepository 1)"
proof -
  have h: "posts setupTestRepository 999 = None" by (simp add: setupTestRepository_def)
  show ?thesis
    using h Delete_idempotent [of setupTestRepository 999] Delete_idempotent [of setupTestRepository 1]
    by simp
qed

text \<open>
  C6. When the identifier is absent, \<^verbatim>\<open>GetByID\<close> and \<^verbatim>\<open>Update\<close> return the error
  \<open>ErrPostNotFound\<close> and no record; when it is present, \<^verbatim>\<open>GetByID\<close> returns the
  stored record and no error.
\<close>

theorem absent_is_NotFound:
  "(posts r i = None \<longrightarrow>
      fst (GetByID r i) = Inl ErrPostNotFound \<and> fst (Update r i d) = Inl ErrPostNotFound
      \<and> (\<forall>post. fst (GetByID r i) \<noteq> Inr post) \<and> (\<forall>post. fst (Update r i d) \<noteq> Inr post))
   \<and> (\<forall>post. posts r i = Some post \<longrightarrow> fst (GetByID r i) = Inr post)"
  by (simp add: GetByID_def Update_def)

text \<open>The theorem at the store of two records, for the identifiers 999 and 1.\<close>

theorem absent_is_NotFound_witness:
  "posts setupTestRepository 999 = None
   \<and> fst (GetByID setupTestRepository 999) = Inl ErrPostNotFound
   \<and> fst (Update setupTestRepository 999 updatedData) = Inl ErrPostNotFound
   \<and> posts setupTestRepository 1 = Some post1
   \<and> fst (GetByID setupTestRepository 1) = Inr post1"
proof -
  have h: "posts setupTestRepository 999 = None" by (simp add: setupTestRepository_def)
  have g: "posts setupTestRepository 1 = Some post1" by (simp add: setupTestRepository_def)
  show ?thesis
    using h g absent_is_NotFound [of setupTestRepository 999 updatedData] absent_is_NotFound [of setupTestRepository 1 updatedData]
    by simp
qed

text \<open>
  C7. For an identifier that is not positive, \<^verbatim>\<open>GetPostByID\<close> and \<^verbatim>\<open>DeletePost\<close>
  return an error and the store as it was, and for a positive one they are the store's
  \<^verbatim>\<open>GetByID\<close> and \<^verbatim>\<open>Delete\<close>. The error they return is a new value made by
  \<^verbatim>\<open>errors.New("invalid post ID")\<close>, not the sentinel \<open>InvalidPostIDError\<close> that
  \<^verbatim>\<open>UpdatePost\<close> returns: the two have the same text, but \<^verbatim>\<open>errors.Is\<close> against
  the sentinel is false for the new value, and the handler of \<^verbatim>\<open>GET /posts/{id}\<close>
  answers it with status 500 where the sentinel gets 400.
\<close>

theorem invalid_id_gate:
  "(sint i \<le> 0 \<longrightarrow>
      GetPostByID r i = (Inl (ErrorsNew ''invalid post ID''), r)
      \<and> DeletePost r i = (Some (ErrorsNew ''invalid post ID''), r)
      \<and> UpdatePost r i d = (Inl InvalidPostIDError, r))
   \<and> (0 < sint i \<longrightarrow> GetPostByID r i = GetByID r i \<and> DeletePost r i = Delete r i)
   \<and> \<not> errors_Is (ErrorsNew ''invalid post ID'') InvalidPostIDError
   \<and> GetPostByID_status (ErrorsNew ''invalid post ID'') = 500
   \<and> GetPostByID_status InvalidPostIDError = 400
   \<and> Error (ErrorsNew ''invalid post ID'') = Error InvalidPostIDError"
  by (simp add: GetPostByID_def DeletePost_def UpdatePost_def errors_Is_def GetPostByID_status_def)

text \<open>The theorem at the store of two records, for the identifiers -1 and 1.\<close>

theorem invalid_id_gate_witness:
  "sint (- 1 :: go_int) \<le> 0
   \<and> GetPostByID setupTestRepository (- 1) = (Inl (ErrorsNew ''invalid post ID''), setupTestRepository)
   \<and> DeletePost setupTestRepository (- 1) = (Some (ErrorsNew ''invalid post ID''), setupTestRepository)
   \<and> UpdatePost setupTestRepository (- 1) updatedData = (Inl InvalidPostIDError, setupTestRepository)
   \<and> 0 < sint (1 :: go_int)
   \<and> GetPostByID setupTestRepository 1 = GetByID setupTestRepository 1
   \<and> DeletePost setupTestRepository 1 = Delete setupTestRepository 1
   \<and> GetPostByID_status (ErrorsNew ''invalid post ID'') = 500"
proof -
  have n: "sint (- 1 :: go_int) \<le> 0" by simp
  have p: "0 < sint (1 :: go_int)" by simp
  show ?thesis
    using n p invalid_id_gate [of "- 1" setupTestRepository updatedData] invalid_id_gate [of 1 setupTestRepository updatedData]
    by blast
qed

text \<open>
  C8 (amended). The claim as written fails for a file whose identifiers are all negative
  (the counter is 1, since \<open>maxID\<close> starts at 0) and for a file holding the identifier
  \<open>MaxInt\<close> (the counter wraps around to \<open>MinInt\<close>). What holds: the loader stores
  every record of the sequence under its own identifier in an initially empty map, a
  later record replacing an earlier one with the same identifier, so that the keys are
  exactly the identifiers of the sequence and every record is present when the
  identifiers are distinct; the counter is one greater than the largest of 0 and the
  identifiers found, provided that value is below \<open>MaxInt\<close>; it is 1 for the empty
  sequence; and after bootstrapping from the identifiers 1 and 2 the first
  \<^verbatim>\<open>Create\<close> returns identifier 3.
\<close>

theorem bootstrap_loads_posts:
  "posts (NewMapRepository ps) = map_of (rev (map (\<lambda>p. (ID p, p)) ps))
   \<and> dom (posts (NewMapRepository ps)) = ID ` set ps
   \<and> (distinct (map ID ps) \<longrightarrow> (\<forall>p \<in> set ps. posts (NewMapRepository ps) (ID p) = Some p))
   \<and> (Max (insert 0 (sint ` ID ` set ps)) < sint MaxInt \<longrightarrow>
        sint (nextID (NewMapRepository ps)) = Max (insert 0 (sint ` ID ` set ps)) + 1)
   \<and> nextID (NewMapRepository []) = 1
   \<and> (ID p1 = 1 \<and> ID p2 = 2 \<longrightarrow>
        nextID (NewMapRepository [p1, p2]) = 3
        \<and> (\<exists>created. fst (Create (NewMapRepository [p1, p2]) d) = Inr created \<and> ID created = 3))"
proof -
  have a: "posts (NewMapRepository ps) = map_of (rev (map (\<lambda>p. (ID p, p)) ps))"
    by (rule posts_New_map)
  have b: "dom (posts (NewMapRepository ps)) = ID ` set ps"
    by (simp add: posts_New load_posts_dom)
  have c: "posts (NewMapRepository ps) (ID p) = Some p" if "distinct (map ID ps)" "p \<in> set ps" for p
  proof -
    have "distinct (map fst (rev (map (\<lambda>p. (ID p, p)) ps)))"
      using that(1) by (simp add: rev_map [symmetric] comp_def)
    moreover have "(ID p, p) \<in> set (rev (map (\<lambda>p. (ID p, p)) ps))"
      using that(2) by auto
    ultimately show ?thesis by (simp only: a map_of_eq_Some_iff)
  qed
  have e: "nextID (NewMapRepository []) = 1"
    by (simp add: NewMapRepository_def)
  have f: "nextID (NewMapRepository [p1, p2]) = 3" if "ID p1 = 1 \<and> ID p2 = 2"
    using that by (simp add: NewMapRepository_def)
  show ?thesis
    using a b c sint_nextID_New [of ps] e f by (simp add: fst_Create)
qed

text \<open>The theorem at the file of the two records 1 and 2.\<close>

theorem bootstrap_loads_posts_witness:
  "distinct (map ID [post1, post2])
   \<and> posts (NewMapRepository [post1, post2]) (ID post1) = Some post1
   \<and> posts (NewMapRepository [post1, post2]) (ID post2) = Some post2
   \<and> Max (insert 0 (sint ` ID ` set [post1, post2])) < sint MaxInt
   \<and> sint (nextID (NewMapRepository [post1, post2])) = 3
   \<and> ID post1 = 1 \<and> ID post2 = 2
   \<and> fst (Create (NewMapRepository [post1, post2]) newPost)
        = Inr \<lparr>ID = 3, PostRead.Title = ''New Post'', PostRead.Content = ''New Content'', PostRead.Author = ''New Author''\<rparr>"
proof -
  have i: "ID post1 = 1 \<and> ID post2 = 2" by (simp add: post1_def post2_def)
  have d: "distinct (map ID [post1, post2])" using i by simp
  have m: "Max (insert 0 (sint ` ID ` set [post1, post2])) = 2" using i by simp
  have lt: "Max (insert 0 (sint ` ID ` set [post1, post2])) < sint MaxInt"
    using m by (simp add: sint_MaxInt)
  have n: "nextID (NewMapRepository [post1, post2]) = 3"
    using i bootstrap_loads_posts [of "[post1, post2]" post1 post2 newPost] by blast
  have s: "sint (nextID (NewMapRepository [post1, post2])) = 3"
    using n by simp
  have g: "\<forall>p \<in> set [post1, post2]. posts (NewMapRepository [post1, post2]) (ID p) = Some p"
    using d bootstrap_loads_posts [of "[post1, post2]" post1 post2 newPost] by blast
  have c: "fst (Create (NewMapRepository [post1, post2]) newPost)
        = Inr \<lparr>ID = 3, PostRead.Title = ''New Post'', PostRead.Content = ''New Content'', PostRead.Author = ''New Author''\<rparr>"
    using n by (simp add: fst_Create newPost_def)
  show ?thesis using i d lt s g c by simp
qed

text \<open>
  C8 as written is false: from a file whose only identifier is -3 the counter is 1, not
  -2, and from a file whose only identifier is \<open>MaxInt\<close> the counter is \<open>MinInt\<close>.
\<close>

theorem bootstrap_counter_counterexample:
  "nextID (NewMapRepository [postNeg]) = 1
   \<and> sint (nextID (NewMapRepository [postNeg])) \<noteq> Max (sint ` ID ` set [postNeg]) + 1
   \<and> nextID (NewMapRepository [postMax]) = MinInt
   \<and> sint (nextID (NewMapRepository [postMax])) \<noteq> Max (sint ` ID ` set [postMax]) + 1"
  by (simp add: NewMapRepository_def postNeg_def postMax_def MinInt_def)

text \<open>
  C9. When the title, the content or the author of the request is empty,
  \<^verbatim>\<open>CreatePost\<close> and, for a positive identifier, \<^verbatim>\<open>UpdatePost\<close> return the
  validation error and the store as it was. When none is empty, \<^verbatim>\<open>CreatePost\<close> is the
  store's \<^verbatim>\<open>Create\<close>, and \<^verbatim>\<open>UpdatePost\<close> for a positive identifier returns the
  error of \<^verbatim>\<open>GetByID\<close> with the store as it was when \<^verbatim>\<open>GetByID\<close> fails, and is the
  store's \<^verbatim>\<open>Update\<close> when \<^verbatim>\<open>GetByID\<close> finds the record.
\<close>

theorem validation_gate:
  "(PostCreateUpdate.Title d = [] \<or> PostCreateUpdate.Content d = [] \<or> PostCreateUpdate.Author d = [] \<longrightarrow>
      (\<exists>e. errors_As_ValidationErrors e \<and> CreatePost r d = (Inl e, r)
           \<and> (0 < sint i \<longrightarrow> UpdatePost r i d = (Inl e, r))))
   \<and> (PostCreateUpdate.Title d \<noteq> [] \<and> PostCreateUpdate.Content d \<noteq> [] \<and> PostCreateUpdate.Author d \<noteq> [] \<longrightarrow>
      CreatePost r d = Create r d
      \<and> (\<forall>e. 0 < sint i \<and> fst (GetByID r i) = Inl e \<longrightarrow> UpdatePost r i d = (Inl e, r))
      \<and> (\<forall>found. 0 < sint i \<and> fst (GetByID r i) = Inr found \<longrightarrow> UpdatePost r i d = Update r i d))"
proof (intro conjI impI allI)
  assume "PostCreateUpdate.Title d = [] \<or> PostCreateUpdate.Content d = [] \<or> PostCreateUpdate.Author d = []"
  then have "Validate d \<noteq> None" by (simp add: Validate_None_iff)
  then obtain e where e: "Validate d = Some e" by blast
  have "errors_As_ValidationErrors e" using e by (rule Validate_Some)
  moreover have "CreatePost r d = (Inl e, r)" using e by (simp add: CreatePost_def)
  moreover have "0 < sint i \<longrightarrow> UpdatePost r i d = (Inl e, r)" using e by (simp add: UpdatePost_def)
  ultimately show "\<exists>e. errors_As_ValidationErrors e \<and> CreatePost r d = (Inl e, r)
           \<and> (0 < sint i \<longrightarrow> UpdatePost r i d = (Inl e, r))" by blast
next
  assume v: "PostCreateUpdate.Title d \<noteq> [] \<and> PostCreateUpdate.Content d \<noteq> [] \<and> PostCreateUpdate.Author d \<noteq> []"
  then have n: "Validate d = None" by (simp add: Validate_None_iff)
  show "CreatePost r d = Create r d" using n by (simp add: CreatePost_def)
  show "UpdatePost r i d = (Inl e, r)" if "0 < sint i \<and> fst (GetByID r i) = Inl e" for e
    using that n by (auto simp: UpdatePost_def GetByID_def split: option.splits)
  show "UpdatePost r i d = Update r i d" if "0 < sint i \<and> fst (GetByID r i) = Inr found" for found
    using that n by (auto simp: UpdatePost_def GetByID_def split: option.splits)
qed

text \<open>
  The theorem at the store of two records: a request without content, and a complete
  request for the identifiers 999 (absent) and 1 (present).
\<close>

theorem validation_gate_witness:
  "PostCreateUpdate.Content noContent = []
   \<and> CreatePost setupTestRepository noContent = (Inl (ValidationErrors [''Content'']), setupTestRepository)
   \<and> 0 < sint (1 :: go_int)
   \<and> UpdatePost setupTestRepository 1 noContent = (Inl (ValidationErrors [''Content'']), setupTestRepository)
   \<and> PostCreateUpdate.Title updatedData \<noteq> [] \<and> PostCreateUpdate.Content updatedData \<noteq> []
   \<and> PostCreateUpdate.Author updatedData \<noteq> []
   \<and> CreatePost setupTestRepository updatedData = Create setupTestRepository updatedData
   \<and> fst (GetByID setupTestRepository 999) = Inl ErrPostNotFound
   \<and> UpdatePost setupTestRepository 999 updatedData = (Inl ErrPostNotFound, setupTestRepository)
   \<and> fst (GetByID setupTestRepository 1) = Inr post1
   \<and> UpdatePost setupTestRepository 1 updatedData = Update setupTestRepository 1 updatedData"
proof -
  have e: "PostCreateUpdate.Content noContent = []" by (simp add: noContent_def)
  have p: "0 < sint (1 :: go_int)" and q: "0 < sint (999 :: go_int)" by simp_all
  have v: "PostCreateUpdate.Title updatedData \<noteq> [] \<and> PostCreateUpdate.Content updatedData \<noteq> []
   \<and> PostCreateUpdate.Author updatedData \<noteq> []" by (simp add: updatedData_def)
  have g9: "fst (GetByID setupTestRepository 999) = Inl ErrPostNotFound"
    by (simp add: GetByID_def setupTestRepository_def)
  have g1: "fst (GetByID setupTestRepository 1) = Inr post1"
    by (simp add: GetByID_def setupTestRepository_def)
  have c: "CreatePost setupTestRepository noContent = (Inl (ValidationErrors [''Content'']), setupTestRepository)"
    by (simp add: CreatePost_def Validate_def noContent_def)
  have u: "UpdatePost setupTestRepository 1 noContent = (Inl (ValidationErrors [''Content'']), setupTestRepository)"
    by (simp add: UpdatePost_def Validate_def noContent_def)
  have "CreatePost setupTestRepository updatedData = Create setupTestRepository updatedData"
    and "UpdatePost setupTestRepository 999 updatedData = (Inl ErrPostNotFound, setupTestRepository)"
    and "UpdatePost setupTestRepository 1 updatedData = Update setupTestRepository 1 updatedData"
    using v q p g9 g1 validation_gate [of updatedData setupTestRepository 999] validation_gate [of updatedData setupTestRepository 1]
    by blast+
  then show ?thesis using e p v g9 g1 c u by simp
qed

text \<open>
  C10. Whenever \<^verbatim>\<open>GetByID\<close>, \<^verbatim>\<open>Update\<close>, \<^verbatim>\<open>GetPostByID\<close>,
  \<^verbatim>\<open>CreatePost\<close>, \<^verbatim>\<open>UpdatePost\<close> or \<^verbatim>\<open>DeletePost\<close> returns an error, the store
  after the call, map and counter, is the store before the call.
\<close>

theorem error_leaves_store_unchanged:
  "(fst (GetByID r i) = Inl e \<longrightarrow> snd (GetByID r i) = r)
   \<and> (fst (Update r i d) = Inl e \<longrightarrow> snd (Update r i d) = r)
   \<and> (fst (GetPostByID r i) = Inl e \<longrightarrow> snd (GetPostByID r i) = r)
   \<and> (fst (CreatePost r d) = Inl e \<longrightarrow> snd (CreatePost r d) = r)
   \<and> (fst (UpdatePost r i d) = Inl e \<longrightarrow> snd (UpdatePost r i d) = r)
   \<and> (fst (DeletePost r i) = Some e \<longrightarrow> snd (DeletePost r i) = r)"
proof (intro conjI impI)
  show "snd (GetByID r i) = r"
    by (simp add: GetByID_def split: option.splits)
  then show "snd (GetPostByID r i) = r"
    by (simp add: GetPostByID_def)
  show "snd (Update r i d) = r" if "fst (Update r i d) = Inl e"
    using that by (simp add: Update_def Let_def split: option.splits)
  show "snd (CreatePost r d) = r" if "fst (CreatePost r d) = Inl e"
    using that by (simp add: CreatePost_def Create_def Let_def split: option.splits)
  show "snd (UpdatePost r i d) = r" if "fst (UpdatePost r i d) = Inl e"
    using that
    by (auto simp: UpdatePost_def GetByID_def Update_def Let_def split: option.splits if_splits)
  show "snd (DeletePost r i) = r" if "fst (DeletePost r i) = Some e"
    using that by (simp add: DeletePost_def Delete_def split: if_splits)
qed

text \<open>The theorem at the store of two records, with one failing call of each operation.\<close>

theorem error_leaves_store_unchanged_witness:
  "fst (GetByID setupTestRepository 999) = Inl ErrPostNotFound
   \<and> snd (GetByID setupTestRepository 999) = setupTestRepository
   \<and> fst (Update setupTestRepository 999 updatedData) = Inl ErrPostNotFound
   \<and> snd (Update setupTestRepository 999 updatedData) = setupTestRepository
   \<and> fst (GetPostByID setupTestRepository 999) = Inl ErrPostNotFound
   \<and> snd (GetPostByID setupTestRepository 999) = setupTestRepository
   \<and> fst (UpdatePost setupTestRepository 999 updatedData) = Inl ErrPostNotFound
   \<and> snd (UpdatePost setupTestRepository 999 updatedData) = setupTestRepository
   \<and> fst (CreatePost setupTestRepository noContent) = Inl (ValidationErrors [''Content''])
   \<and> snd (CreatePost setupTestRepository noContent) = setupTestRepository
   \<and> fst (DeletePost setupTestRepository 0) = Some (ErrorsNew ''invalid post ID'')
   \<and> snd (DeletePost setupTestRepository 0) = setupTestRepository"
proof -
  have g: "fst (GetByID setupTestRepository 999) = Inl ErrPostNotFound"
    by (simp add: GetByID_def setupTestRepository_def)
  have u: "fst (Update setupTestRepository 999 updatedData) = Inl ErrPostNotFound"
    by (simp add: Update_def setupTestRepository_def)
  have gp: "fst (GetPostByID setupTestRepository 999) = Inl ErrPostNotFound"
    by (simp add: GetPostByID_def GetByID_def setupTestRepository_def)
  have up: "fst (UpdatePost setupTestRepository 999 updatedData) = Inl ErrPostNotFound"
    by (simp add: UpdatePost_def Validate_def updatedData_def GetByID_def setupTestRepository_def)
  have c: "fst (CreatePost setupTestRepository noContent) = Inl (ValidationErrors [''Content''])"
    by (simp add: CreatePost_def Validate_def noContent_def)
  have dl: "fst (DeletePost setupTestRepository 0) = Some (ErrorsNew ''invalid post ID'')"
    by (simp add: DeletePost_def)
  show ?thesis
    using g u gp up c dl
      error_leaves_store_unchanged [of setupTestRepository 999 ErrPostNotFound updatedData]
      error_leaves_store_unchanged [of setupTestRepository 999 "ValidationErrors [''Content'']" noContent]
      error_leaves_store_unchanged [of setupTestRepository 0 "ErrorsNew ''invalid post ID''" updatedData]
    by simp
qed

end
